theory Spec2Isabelle
  imports Complex_Main
begin

section \<open>BGX Ripper: the acquisition pipeline of \<open>main.py\<close>\<close>

text \<open>
  The development embeds \<open>gather_bgx_data\<close> and \<open>animate_progress_bar\<close> of
  \<open>src/main.py\<close>, and the service filter of \<open>src/mainpretty.py\<close>. The BLE host stack
  (bleak) is a parameter: a record of the answers it gives to the calls of one run. The
  pipeline is a function from these answers to the list of things it did (host-stack calls,
  sleeps, printed text) and the way it ended.

  Python strings are lists of ASCII characters, and what \<open>print\<close> shows of a device, a
  byte value or an exception is the string that the host stack hands over. A Python float
  is the real number it stands for; each arithmetic operation on floats gives the exact
  result rounded to a double (\<open>round_double\<close> below). Infinities and NaN do not occur: the
  floats of a run are durations and clock readings.
\<close>

subsection \<open>Strings\<close>

definition lower_char :: "char \<Rightarrow> char" where
  "lower_char c =
     (let n = (of_char c :: nat) in if 65 \<le> n \<and> n \<le> 90 then char_of (n + 32) else c)"

text \<open>\<open>s.lower()\<close>\<close>

definition lower :: "string \<Rightarrow> string" where
  "lower s = map lower_char s"

fun startswith :: "string \<Rightarrow> string \<Rightarrow> bool" where
  "startswith s [] = True"
| "startswith [] (p # ps) = False"
| "startswith (c # cs) (p # ps) = (c = p \<and> startswith cs ps)"

text \<open>\<open>sub in s\<close> for two strings: \<open>sub\<close> occurs in \<open>s\<close> as a contiguous run.\<close>

fun str_contains :: "string \<Rightarrow> string \<Rightarrow> bool" where
  "str_contains [] sub = (sub = [])"
| "str_contains (c # cs) sub = (startswith (c # cs) sub \<or> str_contains cs sub)"

text \<open>\<open>x in xs\<close> for a list: some element equals \<open>x\<close>.\<close>

definition list_contains :: "'a list \<Rightarrow> 'a \<Rightarrow> bool" where
  "list_contains xs x = (x \<in> set xs)"

text \<open>\<open>s * n\<close> for a string and an integer: empty when \<open>n\<close> is not positive.\<close>

definition str_times :: "string \<Rightarrow> int \<Rightarrow> string" where
  "str_times s n = concat (replicate (nat n) s)"

text \<open>\<open>int(x)\<close> for a float: truncation towards zero.\<close>

definition py_int :: "real \<Rightarrow> int" where
  "py_int x = (if 0 \<le> x then \<lfloor>x\<rfloor> else \<lceil>x\<rceil>)"

subsection \<open>Float arithmetic\<close>

text \<open>
  A double is \<open>m * 2 ^ e\<close> with an integer \<open>m\<close> of at most 53 bits and \<open>e\<close> from \<open>- 1074\<close> to
  \<open>971\<close>. The spacing of the doubles around \<open>x\<close> is \<open>ulp x\<close>: the power of two \<open>u\<close> with
  \<open>2 ^ 52 * u \<le> \<bar>x\<bar> < 2 ^ 53 * u\<close>, and \<open>2 ^ - 1074\<close> below the normal range. It is found
  from \<open>1\<close> by halving (at most 1074 times) or by doubling (at most 971 times).
\<close>

fun ulp_below :: "nat \<Rightarrow> real \<Rightarrow> real \<Rightarrow> real" where
  "ulp_below 0 x u = u"
| "ulp_below (Suc n) x u = (if x < 2 ^ 52 * u then ulp_below n x (u / 2) else u)"

fun ulp_above :: "nat \<Rightarrow> real \<Rightarrow> real \<Rightarrow> real" where
  "ulp_above 0 x u = u"
| "ulp_above (Suc n) x u = (if 2 ^ 53 * u \<le> x then ulp_above n x (2 * u) else u)"

definition ulp :: "real \<Rightarrow> real" where
  "ulp x = (if \<bar>x\<bar> < 2 ^ 53 then ulp_below 1074 \<bar>x\<bar> 1 else ulp_above 971 \<bar>x\<bar> 1)"

text \<open>Rounding to the nearest integer, a tie going to the even one.\<close>

definition round_half_even :: "real \<Rightarrow> int" where
  "round_half_even m =
     (let f = \<lfloor>m\<rfloor>
      in if m - of_int f < 1 / 2 then f
         else if 1 / 2 < m - of_int f then f + 1
         else if even f then f else f + 1)"

text \<open>
  The double nearest to \<open>x\<close> (IEEE 754 binary64, round to nearest, ties to even): what
  a float operation returns for the exact result \<open>x\<close>. Results beyond the largest double
  are not cut off; in this program such a quotient only meets \<open>min\<close> with \<open>1.0\<close>.
\<close>

definition round_double :: "real \<Rightarrow> real" where
  "round_double x = of_int (round_half_even (x / ulp x)) * ulp x"

fun digit_char :: "nat \<Rightarrow> char" where
  "digit_char n = char_of (48 + n mod 10)"

fun str_nat :: "nat \<Rightarrow> string" where
  "str_nat n = (if n < 10 then [digit_char n] else str_nat (n div 10) @ [digit_char n])"

text \<open>\<open>str(n)\<close> for an integer, as an f-string shows it.\<close>

definition str_int :: "int \<Rightarrow> string" where
  "str_int i = (if i < 0 then CHR ''-'' # str_nat (nat (- i)) else str_nat (nat i))"

definition str_bool :: "bool \<Rightarrow> string" where
  "str_bool b = (if b then ''True'' else ''False'')"

subsection \<open>The data the host stack reports\<close>

record characteristic =
  c_uuid :: string
  properties :: "string list"

record service =
  s_uuid :: string
  description :: string
  characteristics :: "characteristic list"

text \<open>
  A host-stack call raises \<open>asyncio.TimeoutError\<close> or a \<open>BleakError\<close> (with its text), or
  it returns. The pipeline itself can raise two more exceptions: the \<open>UnboundLocalError\<close>
  (a \<open>NameError\<close>) of reading the local \<open>progress_task\<close> before it is assigned, and the
  \<open>ZeroDivisionError\<close> of line 91, where the progress task divides by its duration.
\<close>

datatype fault = TimeoutError | BleakError string

datatype exn = HostFault fault | NameError | ZeroDivisionError

text \<open>
  The host stack during one run. The scanner and the characteristic read are called
  several times, so their answers are indexed by the number of calls made before
  (\<open>find_device_by_address h 0\<close> answers the first scan). A device is the string
  that identifies it; \<open>None\<close> is the scan that found nothing.
\<close>

record host =
  find_device_by_address :: "nat \<Rightarrow> fault + string option"
  connect :: "fault + unit"
  is_connected :: "fault + bool"
  get_services :: "fault + service list"
  read_gatt_char :: "nat \<Rightarrow> string \<Rightarrow> fault + string"

text \<open>What a run does, in order.\<close>

datatype event =
    Print string
  | Scan string real
  | StartProgress real
  | CancelProgress
  | Sleep real
  | Connect string real
  | Disconnect
  | IsConnected
  | GetServices
  | ReadChar string

text \<open>
  How \<open>gather_bgx_data\<close> ends: at the \<open>return\<close> of line 42 (no device), in the handler of
  line 68 (a \<open>BleakError\<close> of the connected phase), at the end of its body, or with an
  exception that leaves it.
\<close>

datatype outcome = DeviceNotFound | ConnectionFailure string | Completed | Raised exn

subsection \<open>The service filter\<close>

text \<open>Line 52 of \<open>main.py\<close>.\<close>

definition relevant :: "service \<Rightarrow> bool" where
  "relevant s =
     (str_contains (lower (description s)) ''bgx''
      \<or> str_contains (lower (description s)) ''xpress''
      \<or> str_contains (lower (description s)) ''gechoos'')"

definition relevant_services :: "service list \<Rightarrow> service list" where
  "relevant_services services = filter relevant services"

text \<open>Lines 67 to 70 of \<open>mainpretty.py\<close>.\<close>

definition relevant_pretty :: "string \<Rightarrow> service \<Rightarrow> bool" where
  "relevant_pretty service_uuid s =
     (s_uuid s = service_uuid
      \<or> str_contains (lower (description s)) ''xpress''
      \<or> str_contains (lower (description s)) ''gechoos'')"

definition relevant_services_pretty :: "string \<Rightarrow> service list \<Rightarrow> service list" where
  "relevant_services_pretty service_uuid services = filter (relevant_pretty service_uuid) services"

text \<open>
  The filter as the specification words it: the UUID is the target's, or the description,
  in lower case, contains one of the three vendor names.
\<close>

definition spec_relevant :: "string \<Rightarrow> service \<Rightarrow> bool" where
  "spec_relevant targetServiceId s =
     (s_uuid s = targetServiceId
      \<or> str_contains (lower (description s)) ''bgx''
      \<or> str_contains (lower (description s)) ''xpress''
      \<or> str_contains (lower (description s)) ''gechoos'')"

subsection \<open>The device locator: lines 22 to 42\<close>

definition esc :: string where
  "esc = [char_of (27 :: nat)]"

definition newline :: string where
  "newline = [char_of (10 :: nat)]"

definition retries :: nat where
  "retries = 3"

definition attempting_line :: "string \<Rightarrow> nat \<Rightarrow> string" where
  "attempting_line device_address attempt =
     ''Attempting to find device: '' @ device_address @ '', attempt ''
       @ str_nat (attempt + 1) @ ''/'' @ str_nat retries"

definition retrying_line :: "nat \<Rightarrow> string" where
  "retrying_line attempt =
     esc @ ''[91m'' @ newline @ ''Attempt '' @ str_nat (attempt + 1) @ '' of '' @ str_nat retries
       @ '': Device not found. Retrying...'' @ esc @ ''[0m''"

definition not_found_line :: string where
  "not_found_line =
     ''Device not found after multiple attempts. Please ensure the device is powered on and in range.''"

text \<open>
  The loop \<open>for attempt in range(retries)\<close>, one equation per pass. \<open>assigned\<close> says
  whether the local \<open>progress_task\<close> is bound, \<open>k\<close> counts the scans made so far, and
  \<open>device\<close> is the local of that name. The body, in the order of the source: the verbose
  notice and the start of the progress task (lines 25 to 27), the first scan (28), the
  cancellation of \<open>progress_task\<close> (29; an unbound \<open>progress_task\<close> raises there), the
  wait for the task (30 to 33), the second scan, whose answer replaces the first (34), the
  \<open>break\<close> (35, 36), the retry notice and the sleep (37, 38). A scan that raises leaves the
  function with its exception: no handler encloses the loop.

  The progress task runs while the scan is suspended. With a \<open>scan_timeout\<close> of zero its
  first pass divides by zero (line 91) and the task ends with that exception; cancelling
  a finished task does nothing, and \<open>await progress_task\<close> (line 31) raises the task's
  exception again, which \<open>except asyncio.CancelledError\<close> does not take. With any other
  \<open>scan_timeout\<close> the task has ended normally or is cancelled, and line 31 passes.
\<close>

fun find_device ::
  "host \<Rightarrow> string \<Rightarrow> real \<Rightarrow> real \<Rightarrow> bool \<Rightarrow> bool \<Rightarrow> nat \<Rightarrow> string option \<Rightarrow> nat list
    \<Rightarrow> event list \<times> (exn + string option)" where
  "find_device h device_address retry_delay scan_timeout verbose assigned k device [] =
     ([], Inr device)"
| "find_device h device_address retry_delay scan_timeout verbose assigned k device (attempt # rest) =
     (let notice = (if verbose
                    then [Print (attempting_line device_address attempt), StartProgress scan_timeout]
                    else []);
          scan = Scan device_address scan_timeout
      in case find_device_by_address h k of
           Inl f \<Rightarrow> (notice @ [scan], Inl (HostFault f))
         | Inr device1 \<Rightarrow>
             if \<not> (assigned \<or> verbose) then (notice @ [scan], Inl NameError)
             else if verbose \<and> scan_timeout = 0
             then (notice @ [scan, CancelProgress], Inl ZeroDivisionError)
             else
               (case find_device_by_address h (k + 1) of
                  Inl f \<Rightarrow> (notice @ [scan, CancelProgress, scan], Inl (HostFault f))
                | Inr (Some d) \<Rightarrow> (notice @ [scan, CancelProgress, scan], Inr (Some d))
                | Inr None \<Rightarrow>
                    (case find_device h device_address retry_delay scan_timeout verbose True
                            (k + 2) None rest of
                       (evs, r) \<Rightarrow>
                         (notice @ [scan, CancelProgress, scan,
                                    Print (retrying_line attempt), Sleep retry_delay] @ evs, r))))"

subsection \<open>The harvest: lines 53 to 67\<close>

definition found_service_line :: "service \<Rightarrow> string" where
  "found_service_line s = ''Found Service: '' @ s_uuid s @ '' - '' @ description s"

definition value_line :: "string \<Rightarrow> string \<Rightarrow> string" where
  "value_line uuid v = ''Characteristic '' @ uuid @ '': '' @ v"

definition onboard_line :: "string \<Rightarrow> string" where
  "onboard_line v = ''Onboard Storage Data: '' @ v"

text \<open>The two handlers of lines 64 to 67.\<close>

fun read_fault_line :: "string \<Rightarrow> fault \<Rightarrow> string" where
  "read_fault_line uuid TimeoutError = ''Read operation timed out for characteristic '' @ uuid"
| "read_fault_line uuid (BleakError e) = ''Failed to read characteristic '' @ uuid @ '': '' @ e"

text \<open>
  Lines 56 to 67 for one characteristic; \<open>n\<close> counts the reads made so far, and the
  result carries the count afterwards. \<open>properties\<close> is a list of tags, so the test of
  line 56 is list membership.
\<close>

definition read_characteristic ::
  "host \<Rightarrow> string \<Rightarrow> nat \<Rightarrow> characteristic \<Rightarrow> event list \<times> nat" where
  "read_characteristic h characteristic_uuid n c =
     (if list_contains (properties c) ''read'' then
        (case read_gatt_char h n (c_uuid c) of
           Inl f \<Rightarrow>
             ([Sleep 1, ReadChar (c_uuid c), Print (read_fault_line (c_uuid c) f)], n + 1)
         | Inr v \<Rightarrow>
             if c_uuid c = characteristic_uuid then
               (case read_gatt_char h (n + 1) (c_uuid c) of
                  Inl f \<Rightarrow>
                    ([Sleep 1, ReadChar (c_uuid c), Print (value_line (c_uuid c) v),
                      ReadChar (c_uuid c), Print (read_fault_line (c_uuid c) f)], n + 2)
                | Inr onboard_storage \<Rightarrow>
                    ([Sleep 1, ReadChar (c_uuid c), Print (value_line (c_uuid c) v),
                      ReadChar (c_uuid c), Print (onboard_line onboard_storage)], n + 2))
             else ([Sleep 1, ReadChar (c_uuid c), Print (value_line (c_uuid c) v)], n + 1))
      else ([], n))"

text \<open>The loop of line 55.\<close>

fun read_characteristics ::
  "host \<Rightarrow> string \<Rightarrow> nat \<Rightarrow> characteristic list \<Rightarrow> event list \<times> nat" where
  "read_characteristics h characteristic_uuid n [] = ([], n)"
| "read_characteristics h characteristic_uuid n (c # cs) =
     (case read_characteristic h characteristic_uuid n c of
        (evs, n') \<Rightarrow>
          (case read_characteristics h characteristic_uuid n' cs of
             (evs', n'') \<Rightarrow> (evs @ evs', n'')))"

text \<open>The loop of line 53, over the services that passed the filter.\<close>

fun harvest :: "host \<Rightarrow> string \<Rightarrow> nat \<Rightarrow> service list \<Rightarrow> event list \<times> nat" where
  "harvest h characteristic_uuid n [] = ([], n)"
| "harvest h characteristic_uuid n (s # ss) =
     (case read_characteristics h characteristic_uuid n (characteristics s) of
        (evs, n') \<Rightarrow>
          (case harvest h characteristic_uuid n' ss of
             (evs', n'') \<Rightarrow> (Print (found_service_line s) # evs @ evs', n'')))"

subsection \<open>The connected phase and the whole pipeline: lines 44 to 69\<close>

definition connection_error_line :: "string \<Rightarrow> string" where
  "connection_error_line e = ''An error occurred during connection or data gathering: '' @ e"

definition connected_line :: "bool \<Rightarrow> string" where
  "connected_line b = esc @ ''[92mConnected to device: '' @ str_bool b @ esc @ ''[0m''"

text \<open>
  The handler of line 68 takes a \<open>BleakError\<close> and nothing else: a timeout that reaches it
  leaves \<open>gather_bgx_data\<close>.
\<close>

fun outer_handler :: "event list \<Rightarrow> fault \<Rightarrow> event list \<times> outcome" where
  "outer_handler evs (BleakError e) = (evs @ [Print (connection_error_line e)], ConnectionFailure e)"
| "outer_handler evs TimeoutError = (evs, Raised (HostFault TimeoutError))"

text \<open>
  Lines 44 to 69. \<open>async with BleakClient(...)\<close> connects on entry and disconnects when
  the block is left, also by an exception; a connect that raises has nothing to
  disconnect.
\<close>

definition connected_phase ::
  "host \<Rightarrow> string \<Rightarrow> string \<Rightarrow> real \<Rightarrow> bool \<Rightarrow> event list \<times> outcome" where
  "connected_phase h device characteristic_uuid connection_timeout verbose =
     (case connect h of
        Inl f \<Rightarrow> outer_handler [Connect device connection_timeout] f
      | Inr _ \<Rightarrow>
          (case is_connected h of
             Inl f \<Rightarrow> outer_handler [Connect device connection_timeout, IsConnected, Disconnect] f
           | Inr b \<Rightarrow>
               (let evs = [Connect device connection_timeout, IsConnected]
                            @ (if verbose then [Print (connected_line b)] else [])
                in case get_services h of
                     Inl f \<Rightarrow> outer_handler (evs @ [GetServices, Disconnect]) f
                   | Inr services \<Rightarrow>
                       (evs @ [GetServices]
                          @ fst (harvest h characteristic_uuid 0 (relevant_services services))
                          @ [Disconnect], Completed))))"

definition gather_bgx_data ::
  "host \<Rightarrow> string \<Rightarrow> string \<Rightarrow> string \<Rightarrow> real \<Rightarrow> real \<Rightarrow> real \<Rightarrow> bool \<Rightarrow> event list \<times> outcome" where
  "gather_bgx_data h device_address service_uuid characteristic_uuid connection_timeout
       retry_delay scan_timeout verbose =
     (case find_device h device_address retry_delay scan_timeout verbose False 0 None
             [0 ..< retries] of
        (evs, Inl e) \<Rightarrow> (evs, Raised e)
      | (evs, Inr None) \<Rightarrow> (evs @ [Print not_found_line], DeviceNotFound)
      | (evs, Inr (Some device)) \<Rightarrow>
          (case connected_phase h device characteristic_uuid connection_timeout verbose of
             (evs', r) \<Rightarrow> (evs @ evs', r)))"

subsection \<open>The progress reporter: lines 73 to 99\<close>

definition bar_length :: int where
  "bar_length = 40"

definition filled_segment :: string where
  "filled_segment = esc @ ''[92m#'' @ esc @ ''[0m''"

text \<open>Lines 91 and 92.\<close>

definition progress_of :: "real \<Rightarrow> real \<Rightarrow> real" where
  "progress_of duration elapsed_time = min (round_double (elapsed_time / duration)) 1"

definition filled_length :: "real \<Rightarrow> int" where
  "filled_length progress = py_int (round_double (real_of_int bar_length * progress))"

text \<open>Line 93.\<close>

definition bar :: "real \<Rightarrow> string" where
  "bar progress =
     str_times filled_segment (filled_length progress)
       @ str_times ''-'' (bar_length - filled_length progress)"

text \<open>Line 94: the text of one refresh; it opens with a carriage return.\<close>

definition carriage_return :: char where
  "carriage_return = char_of (13 :: nat)"

definition frame :: "real \<Rightarrow> string" where
  "frame progress =
     carriage_return # ''Scanning: ['' @ bar progress @ ''] ''
       @ str_int (py_int (round_double (progress * 100))) @ ''%''"

datatype progress_end = Full | Cancelled | Failed exn

text \<open>
  The loop of lines 89 to 98 as a function of the clock: \<open>start_time\<close> is the reading of
  line 87 and the list holds the readings of line 90, one per pass, up to the cancellation
  of the task (which arrives in the sleep of line 98 and ends the task there; the list is
  empty when it arrives before the first pass). The result is what was written to
  standard output, in order, and how the task ended. Line 99 writes the empty string.
  Dividing by a zero \<open>duration\<close> raises.
\<close>

fun animate_progress_bar :: "real \<Rightarrow> real \<Rightarrow> real list \<Rightarrow> string list \<times> progress_end" where
  "animate_progress_bar duration start_time [] = ([], Cancelled)"
| "animate_progress_bar duration start_time (now # later) =
     (if duration = 0 then ([], Failed ZeroDivisionError)
      else
        (let elapsed_time = round_double (now - start_time);
             progress = progress_of duration elapsed_time
         in if progress \<ge> 1 then ([frame progress, []], Full)
            else
              (case animate_progress_bar duration start_time later of
                 (written, e) \<Rightarrow> (frame progress # written, e))))"

subsection \<open>Reading a log\<close>

fun scans :: "event list \<Rightarrow> (string \<times> real) list" where
  "scans [] = []"
| "scans (Scan a t # es) = (a, t) # scans es"
| "scans (e # es) = scans es"


fun prints :: "event list \<Rightarrow> string list" where
  "prints [] = []"
| "prints (Print s # es) = s # prints es"
| "prints (e # es) = prints es"

fun reads :: "event list \<Rightarrow> string list" where
  "reads [] = []"
| "reads (ReadChar u # es) = u # reads es"
| "reads (e # es) = reads es"

fun connects :: "event list \<Rightarrow> (string \<times> real) list" where
  "connects [] = []"
| "connects (Connect d t # es) = (d, t) # connects es"
| "connects (e # es) = connects es"


text \<open>
  The reads that open an attempt on a characteristic: the read of line 59 is the one that
  follows the sleep of line 58; the second read of the target, line 62, follows a print.
\<close>

fun attempts :: "event list \<Rightarrow> string list" where
  "attempts [] = []"
| "attempts (Sleep d # ReadChar u # es) = u # attempts es"
| "attempts (e # es) = attempts es"

definition readable :: "characteristic \<Rightarrow> bool" where
  "readable c = list_contains (properties c) ''read''"

text \<open>
  The capability test as the specification words it: some declared tag, in lower case,
  contains \<open>read\<close>.
\<close>

definition spec_readable :: "characteristic \<Rightarrow> bool" where
  "spec_readable c = list_ex (\<lambda>p. str_contains (lower p) ''read'') (properties c)"

subsection \<open>Concrete runs\<close>

text \<open>
  A peripheral with a vendor service of two readable characteristics and one that can
  only be written, and a battery service.
\<close>

definition char_c1 :: characteristic where
  "char_c1 = \<lparr>c_uuid = ''C1'', properties = [''read'', ''write'']\<rparr>"

definition char_c2 :: characteristic where
  "char_c2 = \<lparr>c_uuid = ''C2'', properties = [''read'']\<rparr>"

definition char_w :: characteristic where
  "char_w = \<lparr>c_uuid = ''C3'', properties = [''write'', ''notify'']\<rparr>"

definition char_upper :: characteristic where
  "char_upper = \<lparr>c_uuid = ''C4'', properties = [''READ'']\<rparr>"

definition xpress_service :: service where
  "xpress_service =
     \<lparr>s_uuid = ''S1'', description = ''GECHOOS Xpress Service'',
      characteristics = [char_w, char_c1, char_c2]\<rparr>"

definition battery_service :: service where
  "battery_service =
     \<lparr>s_uuid = ''S2'', description = ''Battery Service'', characteristics = [char_c2]\<rparr>"

definition bgx_service :: service where
  "bgx_service =
     \<lparr>s_uuid = ''S3'', description = ''BGX Streaming'', characteristics = [char_c1]\<rparr>"

text \<open>The peripheral answers every call.\<close>

definition good_host :: host where
  "good_host =
     \<lparr>find_device_by_address = (\<lambda>k. Inr (Some ''BGX220'')),
      connect = Inr (),
      is_connected = Inr True,
      get_services = Inr [xpress_service, battery_service],
      read_gatt_char = (\<lambda>n u. Inr ''4f4b'')\<rparr>"


text \<open>The first scan finds the peripheral and no later one does.\<close>

definition once_host :: host where
  "once_host =
     good_host\<lparr>find_device_by_address := (\<lambda>k. if k = 0 then Inr (Some ''BGX220'') else Inr None)\<rparr>"



text \<open>The first read times out, the others answer.\<close>

definition lossy_host :: host where
  "lossy_host =
     good_host\<lparr>read_gatt_char := (\<lambda>n u. if n = 0 then Inl TimeoutError else Inr ''4f4b'')\<rparr>"

text \<open>The second read fails, the others answer.\<close>

definition flaky_host :: host where
  "flaky_host =
     good_host\<lparr>read_gatt_char := (\<lambda>n u. if n = 1 then Inl (BleakError ''busy'') else Inr ''4f4b'')\<rparr>"





text \<open>The scanner cannot start: every scan raises.\<close>

definition dark_host :: host where
  "dark_host = good_host\<lparr>find_device_by_address := (\<lambda>k. Inl (BleakError ''Bluetooth is off''))\<rparr>"

section \<open>Properties\<close>

subsection \<open>Evaluation and the loops\<close>

lemmas eval_chars = lower_def lower_char_def char_of_def bit_Suc_0_iff

lemma range_retries: "[0 ..< retries] = [0, 1, 2]"
  by (simp add: retries_def upt_rec)

text \<open>With \<open>verbose\<close> off the first pass ends after its first scan, one way or the other.\<close>

lemma find_device_quiet:
  "find_device h a rd st False False k dev (att # rest) =
     ([Scan a st],
      case find_device_by_address h k of Inl f \<Rightarrow> Inl (HostFault f) | Inr d \<Rightarrow> Inl NameError)"
  by (simp split: sum.splits)


text \<open>
  With \<open>verbose\<close> on and a scan timeout of zero, the first attempt ends at line 31 with
  the \<open>ZeroDivisionError\<close> of the progress task, as soon as the first scan has returned.
\<close>

lemma find_device_zero_timeout:
  "find_device_by_address h 0 = Inr d \<Longrightarrow>
   gather_bgx_data h a s c ct rd 0 True =
     ([Print (attempting_line a 0), StartProgress 0, Scan a 0, CancelProgress],
      Raised ZeroDivisionError)"
  by (simp add: gather_bgx_data_def range_retries Let_def)

lemma progress_task_zero_duration:
  "animate_progress_bar 0 start_time (now # later) = ([], Failed ZeroDivisionError)"
  by simp

text \<open>
  The attempts of a log follow the readable characteristics, one for one, whatever the
  reads answer.
\<close>

lemma attempts_read_characteristic:
  "attempts (fst (read_characteristic h cu n c) @ es) =
     (if readable c then c_uuid c # attempts es else attempts es)"
  by (simp add: read_characteristic_def readable_def split: sum.splits)

lemma attempts_read_characteristics:
  "attempts (fst (read_characteristics h cu n cs) @ es) =
     map c_uuid (filter readable cs) @ attempts es"
proof (induction cs arbitrary: n)
  case Nil
  show ?case by simp
next
  case (Cons c cs)
  obtain evs n' where one: "read_characteristic h cu n c = (evs, n')"
    by (cases "read_characteristic h cu n c")
  obtain evs' n'' where more: "read_characteristics h cu n' cs = (evs', n'')"
    by (cases "read_characteristics h cu n' cs")
  have "attempts ((evs @ evs') @ es) = attempts (fst (read_characteristic h cu n c) @ (evs' @ es))"
    by (simp add: one)
  also have "\<dots> = (if readable c then c_uuid c # attempts (evs' @ es) else attempts (evs' @ es))"
    by (rule attempts_read_characteristic)
  also have "attempts (evs' @ es) = map c_uuid (filter readable cs) @ attempts es"
    using Cons.IH [of n'] by (simp add: more)
  finally show ?case
    by (simp add: one more)
qed

lemma attempts_harvest:
  "attempts (fst (harvest h cu n ss)) =
     map c_uuid (filter readable (concat (map characteristics ss)))"
proof (induction ss arbitrary: n)
  case Nil
  show ?case by simp
next
  case (Cons s ss)
  obtain evs n' where one: "read_characteristics h cu n (characteristics s) = (evs, n')"
    by (cases "read_characteristics h cu n (characteristics s)")
  obtain evs' n'' where more: "harvest h cu n' ss = (evs', n'')"
    by (cases "harvest h cu n' ss")
  have "attempts (evs @ evs') = map c_uuid (filter readable (characteristics s)) @ attempts evs'"
    using attempts_read_characteristics [of h cu n "characteristics s" evs'] by (simp add: one)
  moreover have "attempts evs' = map c_uuid (filter readable (concat (map characteristics ss)))"
    using Cons.IH [of n'] by (simp add: more)
  ultimately show ?case
    by (simp add: one more)
qed

subsection \<open>The device locator\<close>

text \<open>
  Claim C1 says that each attempt scans once and that a scan which finds the device ends
  the search at once. \<open>main.py\<close> scans twice in each attempt (lines 28 and 34) and keeps
  only the second answer: when the first scan of the run finds the peripheral and no
  later scan does, the run makes six scans and ends without a device.
\<close>

theorem double_scan_loses_device:
  "find_device_by_address once_host 0 = Inr (Some ''BGX220'')
   \<and> snd (gather_bgx_data once_host ''AA:BB:CC:DD:EE:FF'' ''S1'' ''C1'' 10 2 20 True) = DeviceNotFound
   \<and> length (scans (fst (gather_bgx_data once_host ''AA:BB:CC:DD:EE:FF'' ''S1'' ''C1'' 10 2 20 True))) = 6"
  by (simp add: gather_bgx_data_def range_retries once_host_def good_host_def Let_def)




text \<open>
  Claim C9 as the specification has it: every run with \<open>verbose\<close> off raises a
  \<open>NameError\<close> in its first attempt. On the run below the scanner cannot start: the first
  scan raises a \<open>BleakError\<close> at line 28, before line 29 is reached, and it is that
  exception which leaves the pipeline.
\<close>

theorem verbose_off_scan_fault:
  "gather_bgx_data dark_host ''AA:BB:CC:DD:EE:FF'' ''S1'' ''C1'' 10 2 20 False
     = ([Scan ''AA:BB:CC:DD:EE:FF'' 20], Raised (HostFault (BleakError ''Bluetooth is off'')))"
  by (simp add: gather_bgx_data_def range_retries dark_host_def Let_def)

text \<open>
  Claim C9, amended: with \<open>verbose\<close> off, every run ends in its first attempt, after
  exactly one scan and before any connection. When that scan returns, with a device or
  without, the run ends with the \<open>NameError\<close> of line 29, where \<open>progress_task\<close> was never
  assigned; when the scan call itself raises, the run ends with the fault of the scan.
  The connected phase is out of reach unless \<open>verbose\<close> is on.
\<close>

theorem verbose_off_raises:
  assumes "\<not> verbose"
  shows "gather_bgx_data h a s c ct rd st verbose =
           ([Scan a st],
            Raised (case find_device_by_address h 0 of
                      Inl f \<Rightarrow> HostFault f
                    | Inr d \<Rightarrow> NameError))
         \<and> connects (fst (gather_bgx_data h a s c ct rd st verbose)) = []"
  using assms
  by (simp add: gather_bgx_data_def range_retries find_device_quiet split: sum.splits)

theorem verbose_off_raises_witness:
  "find_device_by_address good_host 0 = Inr (Some ''BGX220'')
   \<and> gather_bgx_data good_host ''AA:BB:CC:DD:EE:FF'' ''S1'' ''C1'' 10 2 20 False
     = ([Scan ''AA:BB:CC:DD:EE:FF'' 20], Raised NameError)
   \<and> connects (fst (gather_bgx_data good_host ''AA:BB:CC:DD:EE:FF'' ''S1'' ''C1'' 10 2 20 False)) = []"
  using verbose_off_raises [of False good_host "''AA:BB:CC:DD:EE:FF''" "''S1''" "''C1''" 10 2 20]
  by (simp add: good_host_def)

text \<open>
  Claim C10: the \<open>service_uuid\<close> handed to \<open>gather_bgx_data\<close> of \<open>main.py\<close> has no effect:
  two runs that differ in it alone do the same things and end the same way.
\<close>

theorem service_uuid_unused:
  "gather_bgx_data h a service_uuid1 c ct rd st v = gather_bgx_data h a service_uuid2 c ct rd st v"
  by (simp add: gather_bgx_data_def)

subsection \<open>The service filter\<close>

text \<open>
  Claim C3 describes a filter that takes a service for its UUID or for one of three
  vendor names in its description. Neither script has that filter. \<open>main.py\<close> never
  looks at the UUID: a service with the target's UUID and a description without a vendor
  name is dropped. \<open>mainpretty.py\<close> looks at the UUID and leaves out the name \<open>bgx\<close>: a
  service described as \<open>BGX Streaming\<close> is dropped.
\<close>

theorem filters_miss_a_disjunct:
  "spec_relevant ''S2'' battery_service \<and> relevant_services [battery_service] = []
   \<and> spec_relevant ''S1'' bgx_service \<and> relevant_services_pretty ''S1'' [bgx_service] = []"
  by (simp add: spec_relevant_def relevant_services_def relevant_def relevant_services_pretty_def
        relevant_pretty_def battery_service_def bgx_service_def eval_chars)

subsection \<open>The harvest\<close>

text \<open>
  Claim C5: a read of characteristic \<open>A\<close> that fails, by a timeout or by any other fault of
  the host stack, is reported in one line and the loop goes on with the characteristics
  after \<open>A\<close>; in a service and over the whole harvest, the attempts are the readable
  characteristics, each once and in order, whatever the reads answer.
\<close>

theorem read_faults_are_isolated:
  assumes "readable A" and "read_gatt_char h n (c_uuid A) = Inl f"
  shows "fst (read_characteristics h cu n (A # cs)) =
           [Sleep 1, ReadChar (c_uuid A), Print (read_fault_line (c_uuid A) f)]
             @ fst (read_characteristics h cu (n + 1) cs)
         \<and> attempts (fst (read_characteristics h cu n (A # cs))) =
             c_uuid A # map c_uuid (filter readable cs)
         \<and> attempts (fst (harvest h cu m ss)) =
             map c_uuid (filter readable (concat (map characteristics ss)))"
proof -
  have one: "read_characteristic h cu n A =
      ([Sleep 1, ReadChar (c_uuid A), Print (read_fault_line (c_uuid A) f)], n + 1)"
    using assms by (simp add: read_characteristic_def readable_def)
  have "fst (read_characteristics h cu n (A # cs)) =
           [Sleep 1, ReadChar (c_uuid A), Print (read_fault_line (c_uuid A) f)]
             @ fst (read_characteristics h cu (n + 1) cs)"
    by (simp add: one split: prod.splits)
  moreover have "attempts (fst (read_characteristics h cu n (A # cs))) =
             c_uuid A # map c_uuid (filter readable cs)"
    using attempts_read_characteristics [of h cu n "A # cs" "[]"] assms(1) by simp
  ultimately show ?thesis
    using attempts_harvest [of h cu m ss] by blast
qed

theorem read_faults_are_isolated_witness:
  "readable char_c1 \<and> read_gatt_char lossy_host 0 (c_uuid char_c1) = Inl TimeoutError
   \<and> fst (read_characteristics lossy_host ''C1'' 0 [char_c1, char_c2]) =
       [Sleep 1, ReadChar ''C1'', Print (read_fault_line ''C1'' TimeoutError),
        Sleep 1, ReadChar ''C2'', Print (value_line ''C2'' ''4f4b'')]
   \<and> attempts (fst (read_characteristics lossy_host ''C1'' 0 [char_c1, char_c2])) = [''C1'', ''C2'']
   \<and> attempts (fst (harvest lossy_host ''C1'' 0 [xpress_service])) = [''C1'', ''C2'']"
proof -
  have r: "readable char_c1"
    by (simp add: readable_def list_contains_def char_c1_def)
  have f: "read_gatt_char lossy_host 0 (c_uuid char_c1) = Inl TimeoutError"
    by (simp add: lossy_host_def)
  have rest: "fst (read_characteristics lossy_host ''C1'' (0 + 1) [char_c2]) =
      [Sleep 1, ReadChar ''C2'', Print (value_line ''C2'' ''4f4b'')]"
    by (simp add: read_characteristic_def list_contains_def char_c2_def lossy_host_def good_host_def)
  show ?thesis
    using r f rest
      read_faults_are_isolated [OF r f, of "''C1''" "[char_c2]" 0 "[xpress_service]"]
    by (simp add: readable_def list_contains_def xpress_service_def char_c1_def char_c2_def
          char_w_def)
qed

text \<open>
  Claim C6 as the specification has it: a successful read of the target characteristic
  gives two reads and two lines, the value line and the onboard-storage line. On the run
  below the first read of the target answers and the second read, the one of line 62,
  fails: the two lines are the value line and the notice of the failed read, and no
  onboard-storage line is printed.
\<close>

theorem second_read_fault_no_onboard_line:
  "read_gatt_char flaky_host 0 (c_uuid char_c1) = Inr ''4f4b''
   \<and> reads (fst (read_characteristic flaky_host ''C1'' 0 char_c1)) = [''C1'', ''C1'']
   \<and> prints (fst (read_characteristic flaky_host ''C1'' 0 char_c1)) =
       [value_line ''C1'' ''4f4b'', read_fault_line ''C1'' (BleakError ''busy'')]"
  by (simp add: read_characteristic_def list_contains_def char_c1_def flaky_host_def good_host_def)

text \<open>
  Claim C6, amended: when the first read of the target characteristic answers, the
  harvester reads it a second time, so that exactly two reads are issued and exactly two
  lines printed for it: the value line, and then the onboard-storage line when the second
  read answers, or the notice of the failed read when it does not. Any other
  characteristic that is read successfully gets exactly one read and one line.
\<close>

theorem target_is_read_twice:
  assumes "readable c" and "read_gatt_char h n (c_uuid c) = Inr v"
  shows "if c_uuid c = cu
         then reads (fst (read_characteristic h cu n c)) = [c_uuid c, c_uuid c]
              \<and> prints (fst (read_characteristic h cu n c)) =
                  [value_line (c_uuid c) v,
                   case read_gatt_char h (n + 1) (c_uuid c) of
                     Inr w \<Rightarrow> onboard_line w
                   | Inl f \<Rightarrow> read_fault_line (c_uuid c) f]
         else reads (fst (read_characteristic h cu n c)) = [c_uuid c]
              \<and> prints (fst (read_characteristic h cu n c)) = [value_line (c_uuid c) v]"
  using assms by (auto simp: read_characteristic_def readable_def split: sum.splits)

theorem target_is_read_twice_witness:
  "readable char_c1 \<and> read_gatt_char good_host 0 (c_uuid char_c1) = Inr ''4f4b''
   \<and> reads (fst (read_characteristic good_host ''C1'' 0 char_c1)) = [''C1'', ''C1'']
   \<and> prints (fst (read_characteristic good_host ''C1'' 0 char_c1)) =
       [value_line ''C1'' ''4f4b'', onboard_line ''4f4b'']
   \<and> readable char_c2 \<and> read_gatt_char good_host 2 (c_uuid char_c2) = Inr ''4f4b''
   \<and> reads (fst (read_characteristic good_host ''C1'' 2 char_c2)) = [''C2'']
   \<and> prints (fst (read_characteristic good_host ''C1'' 2 char_c2)) = [value_line ''C2'' ''4f4b'']"
proof -
  have r1: "readable char_c1" and r2: "readable char_c2"
    by (simp_all add: readable_def list_contains_def char_c1_def char_c2_def)
  have v1: "read_gatt_char good_host 0 (c_uuid char_c1) = Inr ''4f4b''"
    and v2: "read_gatt_char good_host 2 (c_uuid char_c2) = Inr ''4f4b''"
    and w1: "read_gatt_char good_host (0 + 1) (c_uuid char_c1) = Inr ''4f4b''"
    by (simp_all add: good_host_def)
  show ?thesis
    using r1 r2 v1 v2
      target_is_read_twice [OF r1 v1, of "''C1''", unfolded w1]
      target_is_read_twice [OF r2 v2, of "''C1''"]
    by (simp add: char_c1_def char_c2_def)
qed

text \<open>
  Claim C7 as the specification has it: a characteristic is read when one of its tags
  contains \<open>read\<close>, in any case of the letters. \<open>properties\<close> is a list of tags and line 56
  asks whether \<open>read\<close> is one of them: a characteristic tagged \<open>READ\<close> passes the test of
  the specification and is not read.
\<close>

theorem upper_case_tag_not_read:
  "spec_readable char_upper \<and> reads (fst (read_characteristic good_host ''C4'' 0 char_upper)) = []"
  by (simp add: spec_readable_def char_upper_def read_characteristic_def list_contains_def eval_chars)

text \<open>
  Claim C7, amended: the harvester reads a characteristic if and only if \<open>read\<close> is one of
  its declared tags, letter for letter; of one characteristic without the tag and one with
  it, only the second is read.
\<close>

theorem read_iff_tag_present:
  "(reads (fst (read_characteristic h cu n c)) \<noteq> []) = (''read'' \<in> set (properties c))
   \<and> (''read'' \<notin> set (properties c1) \<longrightarrow> ''read'' \<in> set (properties c2) \<longrightarrow>
        attempts (fst (read_characteristics h cu n [c1, c2])) = [c_uuid c2]
        \<and> set (reads (fst (read_characteristics h cu n [c1, c2]))) = {c_uuid c2})"
proof -
  have a: "(reads (fst (read_characteristic h cu n c)) \<noteq> []) = (''read'' \<in> set (properties c))"
    by (simp add: read_characteristic_def list_contains_def split: sum.splits)
  have b: "attempts (fst (read_characteristics h cu n [c1, c2])) = [c_uuid c2]"
    if "''read'' \<notin> set (properties c1)" "''read'' \<in> set (properties c2)"
    using that attempts_read_characteristics [of h cu n "[c1, c2]" "[]"]
    by (simp add: readable_def list_contains_def)
  have c: "set (reads (fst (read_characteristics h cu n [c1, c2]))) = {c_uuid c2}"
    if "''read'' \<notin> set (properties c1)" "''read'' \<in> set (properties c2)"
    using that
    by (simp add: read_characteristic_def list_contains_def split: sum.splits prod.splits)
  show ?thesis using a b c by blast
qed

theorem read_iff_tag_present_witness:
  "''read'' \<notin> set (properties char_w) \<and> ''read'' \<in> set (properties char_c2)
   \<and> reads (fst (read_characteristic good_host ''C1'' 0 char_w)) = []
   \<and> attempts (fst (read_characteristics good_host ''C1'' 0 [char_w, char_c2])) = [''C2'']
   \<and> set (reads (fst (read_characteristics good_host ''C1'' 0 [char_w, char_c2]))) = {''C2''}"
proof -
  have w: "''read'' \<notin> set (properties char_w)" and r: "''read'' \<in> set (properties char_c2)"
    by (simp_all add: char_w_def char_c2_def)
  show ?thesis
    using w r read_iff_tag_present [of good_host "''C1''" 0 char_w char_w char_c2]
    by (simp add: char_c2_def)
qed

subsection \<open>Faults\<close>





subsection \<open>Rounding to a double\<close>

lemma ulp_below_pos: "0 < u \<Longrightarrow> 0 < ulp_below n x u"
  by (induction n arbitrary: u) simp_all

lemma ulp_above_pos: "0 < u \<Longrightarrow> 0 < ulp_above n x u"
  by (induction n arbitrary: u) simp_all

lemma ulp_pos: "0 < ulp x"
  by (simp add: ulp_def ulp_below_pos ulp_above_pos)

lemma round_half_even_of_int: "round_half_even (of_int k) = k"
  by (simp add: round_half_even_def)

lemma round_half_even_nonneg: "0 \<le> m \<Longrightarrow> 0 \<le> round_half_even m"
  by (auto simp: round_half_even_def Let_def)

lemma round_half_even_le: "m \<le> of_int N \<Longrightarrow> round_half_even m \<le> N"
proof -
  assume a: "m \<le> of_int N"
  have f: "\<lfloor>m\<rfloor> \<le> N" using a by (simp add: floor_le_iff)
  show ?thesis
  proof (cases "m = of_int \<lfloor>m\<rfloor>")
    case True
    then have "m - of_int \<lfloor>m\<rfloor> < 1 / 2" by simp
    then show ?thesis using f by (simp add: round_half_even_def Let_def)
  next
    case False
    moreover have "of_int \<lfloor>m\<rfloor> \<le> m" by (rule of_int_floor_le)
    ultimately have "of_int \<lfloor>m\<rfloor> < m" by linarith
    then have "of_int \<lfloor>m\<rfloor> < (of_int N :: real)" using a by linarith
    then have "\<lfloor>m\<rfloor> + 1 \<le> N" by simp
    then show ?thesis using f by (auto simp: round_half_even_def Let_def)
  qed
qed

lemma ulp_below_power:
  "\<exists>j. ulp_below n x ((1 / 2) ^ i) = (1 / 2) ^ j"
proof (induction n arbitrary: i)
  case 0
  show ?case by auto
next
  case (Suc n)
  show ?case
  proof (cases "x < 2 ^ 52 * (1 / 2) ^ i")
    case True
    then have "ulp_below (Suc n) x ((1 / 2) ^ i) = ulp_below n x ((1 / 2) ^ Suc i)"
      by simp
    then show ?thesis
      using Suc [of "Suc i"] by (simp only:)
  next
    case False
    then have "ulp_below (Suc n) x ((1 / 2) ^ i) = (1 / 2) ^ i"
      by simp
    then show ?thesis by blast
  qed
qed

lemma ulp_small_power:
  assumes "\<bar>x\<bar> < 2 ^ 53"
  shows "\<exists>j. ulp x = (1 / 2) ^ j"
  using assms ulp_below_power [of 1074 "\<bar>x\<bar>" 0] by (simp add: ulp_def)

lemma round_double_nonneg: "0 \<le> x \<Longrightarrow> 0 \<le> round_double x"
  using ulp_pos [of x] by (simp add: round_double_def round_half_even_nonneg)

lemma round_double_le_int:
  assumes "\<bar>x\<bar> < 2 ^ 53" and "x \<le> of_int N"
  shows "round_double x \<le> of_int N"
proof -
  obtain j where u: "ulp x = (1 / 2) ^ j"
    using ulp_small_power [OF assms(1)] by blast
  have "x / ulp x = x * 2 ^ j"
    by (simp add: u power_one_over field_simps)
  also have "\<dots> \<le> of_int N * 2 ^ j"
    using assms(2) by simp
  also have "\<dots> = of_int (N * 2 ^ j)"
    by simp
  finally have "round_half_even (x / ulp x) \<le> N * 2 ^ j"
    by (rule round_half_even_le)
  then have "(of_int (round_half_even (x / ulp x)) :: real) \<le> of_int (N * 2 ^ j)"
    by (simp only: of_int_le_iff)
  then have "of_int (round_half_even (x / ulp x)) * ulp x \<le> of_int (N * 2 ^ j) * ulp x"
    using ulp_pos [of x] by (simp only: mult_le_cancel_right_pos)
  also have "of_int (N * 2 ^ j) * ulp x = of_int N"
    by (simp add: u power_one_over)
  finally show ?thesis
    by (simp add: round_double_def)
qed

text \<open>A number of the form \<open>m / 2 ^ j\<close> with \<open>m\<close> of exactly 53 bits is a double.\<close>

lemma ulp_below_exact:
  assumes "2 ^ 52 * (1 / 2) ^ j \<le> x" and "x < 2 ^ 53 * (1 / 2) ^ j" and "i \<le> j" and "j - i \<le> n"
  shows "ulp_below n x ((1 / 2) ^ i) = (1 / 2) ^ j"
  using assms(3,4)
proof (induction n arbitrary: i)
  case 0
  then have "i = j" by simp
  then show ?case by simp
next
  case (Suc n)
  show ?case
  proof (cases "i = j")
    case True
    then show ?thesis using assms(1) by simp
  next
    case False
    then have lt: "Suc i \<le> j" using Suc.prems by simp
    have "(1 / 2 :: real) ^ j \<le> (1 / 2) ^ Suc i"
      using lt by (intro power_decreasing) simp_all
    then have "2 ^ 53 * (1 / 2 :: real) ^ j \<le> 2 ^ 52 * (1 / 2) ^ i"
      by simp
    then have "x < 2 ^ 52 * (1 / 2) ^ i"
      using assms(2) by linarith
    then have "ulp_below (Suc n) x ((1 / 2) ^ i) = ulp_below n x ((1 / 2) ^ Suc i)"
      by simp
    moreover have "ulp_below n x ((1 / 2) ^ Suc i) = (1 / 2) ^ j"
      using lt Suc.prems by (intro Suc.IH) simp_all
    ultimately show ?thesis by (simp only:)
  qed
qed

lemma round_double_exact:
  assumes "x * 2 ^ j = of_int m" and "2 ^ 52 \<le> \<bar>m\<bar>" and "\<bar>m\<bar> < 2 ^ 53" and "j \<le> 1074"
  shows "round_double x = x"
proof -
  have "x = of_int m / 2 ^ j"
    using assms(1) by (simp add: nonzero_eq_divide_eq)
  then have x: "x = of_int m * (1 / 2) ^ j"
    by (simp add: power_one_over)
  have ax: "\<bar>x\<bar> = of_int \<bar>m\<bar> * (1 / 2) ^ j"
    by (simp add: x abs_mult)
  have lo: "2 ^ 52 * (1 / 2) ^ j \<le> \<bar>x\<bar>"
  proof -
    have "(2 ^ 52 :: real) \<le> of_int \<bar>m\<bar>"
      using assms(2) by (metis of_int_le_iff of_int_numeral of_int_power)
    then show ?thesis
      unfolding ax by (intro mult_right_mono) simp_all
  qed
  have hi: "\<bar>x\<bar> < 2 ^ 53 * (1 / 2) ^ j"
  proof -
    have "(of_int \<bar>m\<bar> :: real) < 2 ^ 53"
      using assms(3) by (metis of_int_less_iff of_int_numeral of_int_power)
    then show ?thesis
      unfolding ax by (intro mult_strict_right_mono) simp_all
  qed
  have "(1 / 2 :: real) ^ j \<le> 1"
    by (intro power_le_one) simp_all
  then have "2 ^ 53 * (1 / 2 :: real) ^ j \<le> 2 ^ 53"
    by simp
  then have small: "\<bar>x\<bar> < 2 ^ 53"
    using hi by linarith
  have "ulp_below 1074 \<bar>x\<bar> ((1 / 2) ^ 0) = (1 / 2) ^ j"
    using lo hi assms(4) by (intro ulp_below_exact) simp_all
  then have u: "ulp x = (1 / 2) ^ j"
    using small by (simp add: ulp_def)
  have "x / ulp x = of_int m"
    unfolding u by (simp add: x)
  then have "round_double x = of_int m * (1 / 2) ^ j"
    unfolding round_double_def u by (simp only: round_half_even_of_int)
  then show ?thesis
    by (simp only: x [symmetric])
qed

lemma round_double_one: "round_double 1 = 1"
  by (rule round_double_exact [where m = "4503599627370496" and j = 52]) simp_all

lemma round_double_ten: "round_double 10 = 10"
  by (rule round_double_exact [where m = "5629499534213120" and j = 49]) simp_all

lemma round_double_twenty: "round_double 20 = 20"
  by (rule round_double_exact [where m = "5629499534213120" and j = 48]) simp_all

lemma round_double_half: "round_double (1 / 2) = (1 / 2)"
  by (rule round_double_exact [where m = "4503599627370496" and j = 53]) simp_all

lemma round_double_minus_quarter: "round_double (- (1 / 4)) = (- (1 / 4))"
  by (rule round_double_exact [where m = "(- 4503599627370496)" and j = 54]) simp_all

lemma round_double_minus_ten: "round_double (- 10) = (- 10)"
  by (rule round_double_exact [where m = "(- 5629499534213120)" and j = 49]) simp_all


subsection \<open>The progress reporter\<close>

lemma count_list_concat_replicate:
  "count_list (concat (replicate k s)) c = k * count_list s c"
  by (induction k) simp_all

lemma count_list_replicate:
  "count_list (replicate k x) c = (if x = c then k else 0)"
  by (induction k) auto

lemma concat_replicate_single: "concat (replicate k [x]) = replicate k x"
  by (induction k) simp_all

lemma filled_segment_counts:
  "count_list filled_segment CHR ''#'' = 1" "count_list filled_segment CHR ''-'' = 0"
  by (simp_all add: filled_segment_def esc_def char_of_def bit_Suc_0_iff)

lemma filled_length_bounds:
  assumes "0 \<le> p" and "p \<le> 1"
  shows "filled_length p = \<lfloor>round_double (40 * p)\<rfloor>"
    and "0 \<le> filled_length p" and "filled_length p \<le> 40"
proof -
  have lo: "0 \<le> round_double (40 * p)"
    using assms(1) by (intro round_double_nonneg) simp
  have "round_double (40 * p) \<le> of_int 40"
    using assms by (intro round_double_le_int) simp_all
  then have hi: "round_double (40 * p) \<le> 40"
    by simp
  show a: "filled_length p = \<lfloor>round_double (40 * p)\<rfloor>"
    using lo by (simp add: filled_length_def py_int_def bar_length_def)
  show "0 \<le> filled_length p"
    unfolding a using lo by simp
  have "\<lfloor>round_double (40 * p)\<rfloor> \<le> \<lfloor>40 :: real\<rfloor>"
    using hi by (rule floor_mono)
  then show "filled_length p \<le> 40"
    unfolding a by simp
qed

lemma bar_shape:
  assumes "0 \<le> p" and "p \<le> 1"
  shows "bar p = concat (replicate (nat \<lfloor>round_double (40 * p)\<rfloor>) filled_segment)
                   @ replicate (40 - nat \<lfloor>round_double (40 * p)\<rfloor>) CHR ''-''"
proof -
  note b = filled_length_bounds [OF assms]
  have "nat (40 - filled_length p) = 40 - nat (filled_length p)"
    using b(2) by simp
  then have "str_times ''-'' (bar_length - filled_length p) =
      replicate (40 - nat (filled_length p)) CHR ''-''"
    by (simp add: str_times_def bar_length_def concat_replicate_single)
  then show ?thesis
    unfolding b(1) [symmetric] by (simp add: bar_def str_times_def)
qed

text \<open>No refresh moves to a new line: the text of a refresh holds no line feed.\<close>

lemma digit_char_not_newline: "digit_char n \<noteq> char_of (10 :: nat)"
proof
  assume "digit_char n = char_of (10 :: nat)"
  then have "(of_char (char_of (48 + n mod 10) :: char) :: nat) = of_char (char_of (10 :: nat) :: char)"
    by simp
  moreover have "48 + n mod 10 < 256"
    by (rule less_trans [of _ 58]) simp_all
  ultimately show False by simp
qed

lemma newline_not_in_str_nat: "char_of (10 :: nat) \<notin> set (str_nat n)"
proof (induction n rule: str_nat.induct)
  case (1 n)
  show ?case
    using 1 digit_char_not_newline [of n]
    by (subst str_nat.simps) (auto simp del: str_nat.simps digit_char.simps)
qed

lemma newline_not_in_str_int: "char_of (10 :: nat) \<notin> set (str_int i)"
  using newline_not_in_str_nat by (simp add: str_int_def char_of_def bit_Suc_0_iff)

lemma newline_not_in_str_times:
  "c \<notin> set s \<Longrightarrow> c \<notin> set (str_times s n)"
  by (simp add: str_times_def)

lemma newline_not_in_frame: "char_of (10 :: nat) \<notin> set (frame p)"
proof -
  have "char_of (10 :: nat) \<notin> set filled_segment"
    by (simp add: filled_segment_def esc_def char_of_def bit_Suc_0_iff)
  moreover have "char_of (10 :: nat) \<notin> set ''-''"
    by (simp add: char_of_def bit_Suc_0_iff)
  ultimately have "char_of (10 :: nat) \<notin> set (bar p)"
    by (simp add: bar_def newline_not_in_str_times del: set_simps)
  then show ?thesis
    using newline_not_in_str_int [of "py_int (round_double (p * 100))"]
    by (auto simp add: frame_def carriage_return_def char_of_def bit_Suc_0_iff)
qed

lemma frame_chars:
  "frame p = CHR 0x0D # ''Scanning: ['' @ bar p @ ''] ''
               @ str_int (py_int (round_double (p * 100))) @ ''%''"
  "CHR 0x0A \<notin> set (frame p)"
proof -
  show "frame p = CHR 0x0D # ''Scanning: ['' @ bar p @ ''] ''
               @ str_int (py_int (round_double (p * 100))) @ ''%''"
    by (simp add: frame_def carriage_return_def char_of_def bit_Suc_0_iff)
  show "CHR 0x0A \<notin> set (frame p)"
    using newline_not_in_frame [of p] by (simp add: char_of_def bit_Suc_0_iff)
qed

text \<open>
  The rounding at work: a budget of \<open>0.8\<close> seconds is the double
  \<open>3602879701896397 / 2 ^ 52\<close>, a little above \<open>0.8\<close>. After half a second the exact
  quotient is a little below \<open>0.625\<close>; the float division rounds it to \<open>0.625\<close>, and 25
  segments are filled, not 24.
\<close>

lemma round_double_quotient_example:
  "round_double ((1 / 2) / (3602879701896397 / 2 ^ 52)) = 5 / 8"
proof -
  define x :: real where "x = (1 / 2) / (3602879701896397 / 2 ^ 52)"
  have xv: "x = 2251799813685248 / 3602879701896397"
    by (simp add: x_def)
  have lo: "2 ^ 52 * (1 / 2) ^ 53 \<le> \<bar>x\<bar>" and hi: "\<bar>x\<bar> < 2 ^ 53 * (1 / 2) ^ 53"
    by (simp_all add: xv power_one_over)
  have small: "\<bar>x\<bar> < 2 ^ 53"
    by (simp add: xv)
  have "ulp_below 1074 \<bar>x\<bar> ((1 / 2) ^ 0) = (1 / 2) ^ 53"
    using lo hi by (intro ulp_below_exact) simp_all
  then have u: "ulp x = (1 / 2) ^ 53"
    using small by (simp add: ulp_def)
  have m: "x / ulp x = 20282409603651670423947251286016 / 3602879701896397"
    unfolding u by (simp add: xv power_one_over)
  have fl: "\<lfloor>20282409603651670423947251286016 / 3602879701896397 :: real\<rfloor> = 5629499534213119"
    by simp
  have "round_half_even (x / ulp x) = 5629499534213120"
    unfolding m round_half_even_def Let_def fl by simp
  then have "round_double x = 5629499534213120 * (1 / 2) ^ 53"
    unfolding round_double_def u by simp
  also have "\<dots> = 5 / 8"
    by (simp add: power_one_over)
  finally show ?thesis
    by (simp only: x_def)
qed

lemma double_fill_example:
  "filled_length (progress_of (3602879701896397 / 2 ^ 52) (1 / 2)) = 25"
proof -
  have p: "progress_of (3602879701896397 / 2 ^ 52) (1 / 2) = 5 / 8"
    unfolding progress_of_def round_double_quotient_example by simp
  have "round_double 25 = 25"
    by (rule round_double_exact [where m = 7036874417766400 and j = 48]) simp_all
  then show ?thesis
    unfolding p by (simp add: filled_length_def bar_length_def py_int_def)
qed

text \<open>
  Claim C8 as the specification has it: at every refresh the bar has exactly 40 segments.
  \<open>--scan_timeout\<close> takes any float. With a budget of \<open>- 4\<close> seconds and one second
  elapsed, the fraction is \<open>- 0.25\<close>, the count of filled segments is \<open>- 10\<close>, and the bar
  written is 50 dashes.
\<close>

theorem negative_budget_widens_bar:
  "fst (animate_progress_bar (- 4) 100 [101]) = [frame (- (1 / 4))]
   \<and> bar (- (1 / 4)) = replicate 50 CHR ''-''"
proof -
  have p: "progress_of (- 4) 1 = - (1 / 4)"
    by (simp add: progress_of_def round_double_minus_quarter)
  have run: "fst (animate_progress_bar (- 4) 100 [101]) = [frame (- (1 / 4))]"
    by (simp add: Let_def round_double_one p)
  have "filled_length (- (1 / 4)) = - 10"
    by (simp add: filled_length_def bar_length_def round_double_minus_ten py_int_def)
  then have "bar (- (1 / 4)) = replicate 50 CHR ''-''"
    by (simp add: bar_def bar_length_def str_times_def concat_replicate_single)
  with run show ?thesis by blast
qed

text \<open>
  Claim C8, amended: at a refresh with a positive budget \<open>d\<close> and an elapsed time that is
  not negative, the bar has exactly 40 segments, of which \<open>floor (40 * min (e / d) 1)\<close> are
  filled, every operation of this expression being the program's float operation (the
  exact result rounded to a double): the filled segments come first, each with one \<open>#\<close>,
  then the dashes. The text written starts with a carriage return and holds no line
  feed, so it rewrites the line. When the fraction has reached 1 this refresh is the last,
  whatever the clock shows later; below 1 the loop goes round again.
\<close>

theorem progress_bar_refresh:
  assumes "0 < d" and "start_time \<le> now"
  shows "let e = round_double (now - start_time);
             p = min (round_double (e / d)) 1;
             k = nat \<lfloor>round_double (40 * p)\<rfloor> in
     k \<le> 40
     \<and> bar p = concat (replicate k filled_segment) @ replicate (40 - k) CHR ''-''
     \<and> count_list (bar p) CHR ''#'' = k
     \<and> count_list (bar p) CHR ''-'' = 40 - k
     \<and> frame p = CHR 0x0D # ''Scanning: ['' @ bar p @ ''] ''
                    @ str_int (py_int (round_double (p * 100))) @ ''%''
     \<and> CHR 0x0A \<notin> set (frame p)
     \<and> animate_progress_bar d start_time (now # later) =
         (if p = 1 then ([frame p, []], Full)
          else (frame p # fst (animate_progress_bar d start_time later),
                snd (animate_progress_bar d start_time later)))"
proof -
  define e where "e = round_double (now - start_time)"
  define p where "p = min (round_double (e / d)) 1"
  define k where "k = nat \<lfloor>round_double (40 * p)\<rfloor>"
  have e0: "0 \<le> e"
    unfolding e_def using assms(2) by (intro round_double_nonneg) simp
  have "0 \<le> round_double (e / d)"
    using e0 assms(1) by (intro round_double_nonneg) simp
  then have p0: "0 \<le> p" and p1: "p \<le> 1"
    by (simp_all add: p_def)
  have "filled_length p \<le> 40"
    by (rule filled_length_bounds(3) [OF p0 p1])
  then have k40: "k \<le> 40"
    unfolding k_def filled_length_bounds(1) [OF p0 p1] by linarith
  have shape: "bar p = concat (replicate k filled_segment) @ replicate (40 - k) CHR ''-''"
    unfolding k_def by (rule bar_shape [OF p0 p1])
  have hashes: "count_list (bar p) CHR ''#'' = k"
    by (simp add: shape count_list_concat_replicate count_list_replicate filled_segment_counts)
  have dashes: "count_list (bar p) CHR ''-'' = 40 - k"
    by (simp add: shape count_list_concat_replicate count_list_replicate filled_segment_counts)
  note fr = frame_chars [of p]
  have loop: "animate_progress_bar d start_time (now # later) =
         (if p = 1 then ([frame p, []], Full)
          else (frame p # fst (animate_progress_bar d start_time later),
                snd (animate_progress_bar d start_time later)))"
    using assms(1) p1
    by (auto simp: Let_def progress_of_def p_def e_def split: prod.splits)
  show ?thesis
    unfolding Let_def e_def [symmetric] p_def [symmetric] k_def [symmetric]
    using k40 shape hashes dashes fr loop by (intro conjI)
qed

theorem progress_bar_refresh_witness:
  "(0 :: real) < 20 \<and> (100 :: real) \<le> 110
   \<and> count_list (bar (1 / 2)) CHR ''#'' = 20
   \<and> count_list (bar (1 / 2)) CHR ''-'' = 20
   \<and> count_list (bar 1) CHR ''#'' = 40
   \<and> hd (frame (1 / 2)) = CHR 0x0D
   \<and> animate_progress_bar 20 100 [110, 120, 140] = ([frame (1 / 2), frame 1, []], Full)"
proof -
  have d: "(0 :: real) < 20" and e1: "(100 :: real) \<le> 110" and e2: "(100 :: real) \<le> 120"
    by simp_all
  have p1: "min (round_double (round_double (110 - 100) / 20)) 1 = 1 / 2"
    by (simp add: round_double_ten round_double_half)
  have p2: "min (round_double (round_double (120 - 100) / 20)) 1 = 1"
    by (simp add: round_double_twenty round_double_one)
  have k1: "nat \<lfloor>round_double (40 * (1 / 2))\<rfloor> = 20"
    by (simp add: round_double_twenty)
  have k2: "nat \<lfloor>round_double (40 * 1)\<rfloor> = 40"
  proof -
    have "round_double 40 = 40"
      by (rule round_double_exact [where m = 5629499534213120 and j = 47]) simp_all
    then show ?thesis by simp
  qed
  note t1 = progress_bar_refresh [OF d e1, of "[120, 140]", unfolded Let_def p1 k1]
  note t2 = progress_bar_refresh [OF d e2, of "[140]", unfolded Let_def p2 k2]
  have hashes: "count_list (bar (1 / 2)) CHR ''#'' = 20"
    by (rule t1 [THEN conjunct2, THEN conjunct2, THEN conjunct1])
  have dashes: "count_list (bar (1 / 2)) CHR ''-'' = 20"
    using t1 [THEN conjunct2, THEN conjunct2, THEN conjunct2, THEN conjunct1] by simp
  have full: "count_list (bar 1) CHR ''#'' = 40"
    by (rule t2 [THEN conjunct2, THEN conjunct2, THEN conjunct1])
  have cr: "hd (frame (1 / 2)) = CHR 0x0D"
    using t1 [THEN conjunct2, THEN conjunct2, THEN conjunct2, THEN conjunct2, THEN conjunct1]
    by (simp only: list.sel)
  have loop1: "animate_progress_bar 20 100 [110, 120, 140] =
      (if (1 / 2 :: real) = 1 then ([frame (1 / 2), []], Full)
       else (frame (1 / 2) # fst (animate_progress_bar 20 100 [120, 140]),
             snd (animate_progress_bar 20 100 [120, 140])))"
    by (rule t1 [THEN conjunct2, THEN conjunct2, THEN conjunct2, THEN conjunct2,
          THEN conjunct2, THEN conjunct2])
  have loop2: "animate_progress_bar 20 100 [120, 140] =
      (if (1 :: real) = 1 then ([frame 1, []], Full)
       else (frame 1 # fst (animate_progress_bar 20 100 [140]),
             snd (animate_progress_bar 20 100 [140])))"
    by (rule t2 [THEN conjunct2, THEN conjunct2, THEN conjunct2, THEN conjunct2,
          THEN conjunct2, THEN conjunct2])
  have run: "animate_progress_bar 20 100 [110, 120, 140] = ([frame (1 / 2), frame 1, []], Full)"
    unfolding loop1 loop2 by simp
  show ?thesis
    using d e1 hashes dashes full cr run by (intro conjI)
qed

end
